theory Spec2Isabelle
  imports Main
begin

section \<open>The host calendar: JavaScript \<open>Date\<close>\<close>

text \<open>
  \<open>DatePicker.tsx\<close> builds and reads dates through the JavaScript \<open>Date\<close> object.
  A \<open>Date\<close> holds a time value: a number of milliseconds since 1970-01-01T00:00, or
  NaN, which makes it an Invalid Date. The functions below are the day-number arithmetic
  of ECMAScript (section "Time Values and Time Range"), with integer time values and
  local time taken to be UTC (no time-zone offset, no daylight saving). Reading the time
  value or a field of an Invalid Date gives NaN in JavaScript; the integers of this
  model have no NaN, so \<open>getTime\<close> and the getters are specified on valid dates
  only.
\<close>

datatype Date = Date (getTime: int) | InvalidDate

definition msPerDay :: int where
  "msPerDay = 86400000"

definition Day :: "int \<Rightarrow> int" where
  "Day t = t div msPerDay"

definition DaysInYear :: "int \<Rightarrow> int" where
  "DaysInYear y =
     (if y mod 4 \<noteq> 0 then 365
      else if y mod 100 \<noteq> 0 then 366
      else if y mod 400 \<noteq> 0 then 365
      else 366)"

definition InLeapYear :: "int \<Rightarrow> int" where
  "InLeapYear y = (if DaysInYear y = 366 then 1 else 0)"

definition DayFromYear :: "int \<Rightarrow> int" where
  "DayFromYear y =
     365 * (y - 1970) + (y - 1969) div 4 - (y - 1901) div 100 + (y - 1601) div 400"

text \<open>
  ECMAScript's \<open>YearFromTime\<close> is "the largest integer \<open>y\<close> such that
  \<open>TimeFromYear y \<le> t\<close>". It is computed here from an estimate that is off by at
  most one year (400 Gregorian years have 146097 days), corrected by comparing with
  \<open>DayFromYear\<close>.
\<close>

definition YearFromDay :: "int \<Rightarrow> int" where
  "YearFromDay n =
     (let y0 = 1970 + (400 * n) div 146097
      in if DayFromYear (y0 + 1) \<le> n then y0 + 1
         else if DayFromYear y0 \<le> n then y0
         else y0 - 1)"

text \<open>The day number of the first day of month \<open>m\<close> (0 to 11) within a year.\<close>

definition DayWithinYearOfMonth :: "int \<Rightarrow> int \<Rightarrow> int" where
  "DayWithinYearOfMonth leap m =
     (if m = 0 then 0
      else if m = 1 then 31
      else if m = 2 then 59 + leap
      else if m = 3 then 90 + leap
      else if m = 4 then 120 + leap
      else if m = 5 then 151 + leap
      else if m = 6 then 181 + leap
      else if m = 7 then 212 + leap
      else if m = 8 then 243 + leap
      else if m = 9 then 273 + leap
      else if m = 10 then 304 + leap
      else 334 + leap)"

definition MonthFromDay :: "int \<Rightarrow> int" where
  "MonthFromDay n =
     (let y = YearFromDay n; leap = InLeapYear y; d = n - DayFromYear y
      in if d < 31 then 0
         else if d < 59 + leap then 1
         else if d < 90 + leap then 2
         else if d < 120 + leap then 3
         else if d < 151 + leap then 4
         else if d < 181 + leap then 5
         else if d < 212 + leap then 6
         else if d < 243 + leap then 7
         else if d < 273 + leap then 8
         else if d < 304 + leap then 9
         else if d < 334 + leap then 10
         else 11)"

definition DateFromDay :: "int \<Rightarrow> int" where
  "DateFromDay n =
     (let y = YearFromDay n
      in n - DayFromYear y - DayWithinYearOfMonth (InLeapYear y) (MonthFromDay n) + 1)"

definition WeekDay :: "int \<Rightarrow> int" where
  "WeekDay n = (n + 4) mod 7"

text \<open>
  \<open>MakeDay\<close>: the month may lie outside 0..11 and the day outside the month; both
  roll over into the neighbouring months and years.
\<close>

definition MakeDay :: "int \<Rightarrow> int \<Rightarrow> int \<Rightarrow> int" where
  "MakeDay y m d =
     (let ym = y + m div 12; mn = m mod 12
      in DayFromYear ym + DayWithinYearOfMonth (InLeapYear ym) mn + d - 1)"

text \<open>
  \<open>TimeClip\<close>: a time value of more than 8.64e15 milliseconds in magnitude
  (100,000,000 days either side of 1970) is not a time; the date is an Invalid Date.
\<close>

definition TimeClip :: "int \<Rightarrow> Date" where
  "TimeClip t = (if \<bar>t\<bar> > 8640000000000000 then InvalidDate else Date t)"

text \<open>
  \<open>new Date(year, month, date)\<close>: a year from 0 to 99 means 1900 + year (the
  constructor's two-digit-year rule); the time of day is midnight; the time value is
  clipped.
\<close>

definition Date_new :: "int \<Rightarrow> int \<Rightarrow> int \<Rightarrow> Date" where
  "Date_new y m d =
     (let yr = (if 0 \<le> y \<and> y \<le> 99 then 1900 + y else y)
      in TimeClip (MakeDay yr m d * msPerDay))"

definition getFullYear :: "Date \<Rightarrow> int" where
  "getFullYear dt = YearFromDay (Day (getTime dt))"

definition getMonth :: "Date \<Rightarrow> int" where
  "getMonth dt = MonthFromDay (Day (getTime dt))"

definition getDate :: "Date \<Rightarrow> int" where
  "getDate dt = DateFromDay (Day (getTime dt))"

definition getDay :: "Date \<Rightarrow> int" where
  "getDay dt = WeekDay (Day (getTime dt))"

section \<open>The helpers of \<open>./utils\<close>\<close>

text \<open>
  \<open>DatePicker.tsx\<close> imports its grid builder, its parser and formatter and its range
  test from \<open>./utils\<close>. Each is given here as the specification describes it.
\<close>

subsection \<open>Calendar grid builder\<close>

text \<open>
  Modelled from the spec: the type \<open>DateCellItem\<close> of \<open>./utils\<close>, one cell of the grid:
  year, zero-based month, day of the month, and whether the day belongs to the month
  before the panel's, to the panel's month or to the month after.
\<close>

datatype CellType = Previous | Current | Next

record DateCellItem =
  year :: int
  month :: int
  date :: int
  type :: CellType

text \<open>
  Modelled from the spec: the standard Gregorian leap-year rule that \<open>getDaysAmountInAMonth\<close>
  of \<open>./utils\<close> applies to February ("divisible by 4, not by 100 unless also by 400").
\<close>

definition isLeapYear :: "int \<Rightarrow> bool" where
  "isLeapYear y = (y mod 4 = 0 \<and> (y mod 100 \<noteq> 0 \<or> y mod 400 = 0))"

text \<open>
  Modelled from the spec: \<open>getDaysAmountInAMonth\<close> of \<open>./utils\<close> (the spec's
  \<open>daysInMonth\<close>), the day count of the zero-based month of the year.
\<close>

definition getDaysAmountInAMonth :: "int \<Rightarrow> int \<Rightarrow> int" where
  "getDaysAmountInAMonth y m =
     (if m = 1 then (if isLeapYear y then 29 else 28)
      else if m = 3 \<or> m = 5 \<or> m = 8 \<or> m = 10 then 30
      else 31)"

text \<open>
  Modelled from the spec: \<open>getCurrentMonthDays\<close> of \<open>./utils\<close>, the cells for the
  days 1 to \<open>totalDays\<close> of the month, each tagged \<open>current\<close>.
\<close>

definition getCurrentMonthDays :: "int \<Rightarrow> int \<Rightarrow> int \<Rightarrow> DateCellItem list" where
  "getCurrentMonthDays y m totalDays =
     map (\<lambda>d. \<lparr>year = y, month = m, date = d, type = Current\<rparr>) [1..totalDays]"

text \<open>
  Modelled from the spec: the weekday index (Sunday = 0) of day 1 of the month, which
  \<open>getPreviousMonthDays\<close> and \<open>getNextMonthDays\<close> of \<open>./utils\<close> count from.
\<close>

definition firstWeekDay :: "int \<Rightarrow> int \<Rightarrow> int" where
  "firstWeekDay y m = WeekDay (MakeDay y m 1)"

text \<open>
  Modelled from the spec: \<open>getPreviousMonthDays\<close> of \<open>./utils\<close>, the trailing
  \<open>N\<close> days of the preceding month, \<open>N\<close> the weekday index of day 1, tagged
  \<open>previous\<close>; December of the previous year when the month is January.
\<close>

definition getPreviousMonthDays :: "int \<Rightarrow> int \<Rightarrow> DateCellItem list" where
  "getPreviousMonthDays y m =
     (let n = firstWeekDay y m;
          py = (if m = 0 then y - 1 else y);
          pm = (if m = 0 then 11 else m - 1);
          total = getDaysAmountInAMonth py pm
      in map (\<lambda>d. \<lparr>year = py, month = pm, date = d, type = Previous\<rparr>)
           [total - n + 1..total])"

text \<open>
  Modelled from the spec: \<open>getNextMonthDays\<close> of \<open>./utils\<close>, the leading days of
  the following month that pad previous + current + next to 42 cells, tagged \<open>next\<close>;
  January of the next year when the month is December.
\<close>

definition getNextMonthDays :: "int \<Rightarrow> int \<Rightarrow> DateCellItem list" where
  "getNextMonthDays y m =
     (let n = firstWeekDay y m;
          ny = (if m = 11 then y + 1 else y);
          nm = (if m = 11 then 0 else m + 1);
          k = 42 - n - getDaysAmountInAMonth y m
      in map (\<lambda>d. \<lparr>year = ny, month = nm, date = d, type = Next\<rparr>) [1..k])"

subsection \<open>Canonical format\<close>

text \<open>
  Modelled from the spec: a calendar date is the triple (year, zero-based month, day); it
  is valid when the month is in 0..11 and the day is from 1 to the day count of the month.
\<close>

type_synonym CalendarDate = "int \<times> int \<times> int"

definition validCalendarDate :: "CalendarDate \<Rightarrow> bool" where
  "validCalendarDate c =
     (case c of (y, m, d) \<Rightarrow>
        0 \<le> m \<and> m \<le> 11 \<and> 1 \<le> d \<and> d \<le> getDaysAmountInAMonth y m)"

text \<open>
  Modelled from the spec: decimal digits, numbers written in decimal and padded with
  zeros on the left, and the number a digit string denotes; the pieces of the canonical
  format of \<open>./utils\<close>.
\<close>

definition isDigit :: "char \<Rightarrow> bool" where
  "isDigit c = (c \<in> set ''0123456789'')"

definition digitChar :: "nat \<Rightarrow> char" where
  "digitChar n = ''0123456789'' ! (n mod 10)"

definition digitVal :: "char \<Rightarrow> nat" where
  "digitVal c = of_char c - 48"

fun decimal :: "nat \<Rightarrow> string" where
  "decimal n = (if n < 10 then [digitChar n] else decimal (n div 10) @ [digitChar n])"

definition padStart :: "nat \<Rightarrow> string \<Rightarrow> string" where
  "padStart k s = replicate (k - length s) (CHR ''0'') @ s"

definition numberOf :: "string \<Rightarrow> nat" where
  "numberOf s = foldl (\<lambda>a c. 10 * a + digitVal c) 0 s"

text \<open>
  Modelled from the spec: the canonical format behind \<open>getInputValueFromDate\<close> of
  \<open>./utils\<close>, the spec's \<open>YYYY-MM-DD\<close>: the year in at least four digits, the
  month counted from 1 and the day in two digits each. A year before 0 is written with a
  leading minus sign, so that every year has a rendering the parser can read back.
\<close>

definition formatCalendarDate :: "CalendarDate \<Rightarrow> string" where
  "formatCalendarDate c =
     (case c of (y, m, d) \<Rightarrow>
        (if y < 0 then ''-'' else []) @ padStart 4 (decimal (nat \<bar>y\<bar>)) @ ''-'' @
        padStart 2 (decimal (nat (m + 1))) @ ''-'' @ padStart 2 (decimal (nat d)))"

text \<open>
  Modelled from the spec: the canonical-format parser behind \<open>getDateFromInputValue\<close>
  of \<open>./utils\<close>. Parsing fails when "the text does not match the expected shape or
  describes an impossible calendar date".
\<close>

definition parseCalendarDate :: "string \<Rightarrow> CalendarDate option" where
  "parseCalendarDate s =
     (let neg = (take 1 s = ''-'');
          body = (if neg then drop 1 s else s);
          ys = takeWhile isDigit body
      in case dropWhile isDigit body of
           [c1, m1, m2, c2, d1, d2] \<Rightarrow>
             if 4 \<le> length ys \<and> c1 = CHR ''-'' \<and> c2 = CHR ''-'' \<and>
                isDigit m1 \<and> isDigit m2 \<and> isDigit d1 \<and> isDigit d2
             then
               (let y = (if neg then - int (numberOf ys) else int (numberOf ys));
                    m = int (numberOf [m1, m2]) - 1;
                    d = int (numberOf [d1, d2])
                in if validCalendarDate (y, m, d) then Some (y, m, d) else None)
             else None
         | _ \<Rightarrow> None)"

text \<open>
  Modelled from the spec: the calendar date a \<open>Date\<close> shows, and the \<open>Date\<close> at midnight
  of a calendar date, through which the helpers of \<open>./utils\<close> pass between the two.
\<close>

definition calendarDateOf :: "Date \<Rightarrow> CalendarDate" where
  "calendarDateOf dt = (getFullYear dt, getMonth dt, getDate dt)"

definition dateOfCalendarDate :: "CalendarDate \<Rightarrow> Date" where
  "dateOfCalendarDate c = (case c of (y, m, d) \<Rightarrow> Date (MakeDay y m d * msPerDay))"

text \<open>
  Modelled from the spec: \<open>getInputValueFromDate\<close> of \<open>./utils\<close>, which renders a
  date into the input field in the canonical format.
\<close>

definition getInputValueFromDate :: "Date \<Rightarrow> string" where
  "getInputValueFromDate dt = formatCalendarDate (calendarDateOf dt)"

text \<open>
  Modelled from the spec: \<open>getDateFromInputValue\<close> of \<open>./utils\<close>, which parses typed
  text back into a date; \<open>None\<close> is the source's \<open>undefined\<close>.
\<close>

definition getDateFromInputValue :: "string \<Rightarrow> Date option" where
  "getDateFromInputValue s = map_option dateOfCalendarDate (parseCalendarDate s)"

subsection \<open>Range bounds\<close>

text \<open>
  Modelled from the spec: \<open>isInRange\<close> of \<open>./utils\<close>. "A candidate date is in
  range iff not-earlier-than min (when present) and not-later-than max (when present)".
\<close>

definition isInRange :: "Date \<Rightarrow> Date option \<Rightarrow> Date option \<Rightarrow> bool" where
  "isInRange dt mn mx =
     ((case mn of None \<Rightarrow> True | Some lo \<Rightarrow> getTime lo \<le> getTime dt) \<and>
      (case mx of None \<Rightarrow> True | Some hi \<Rightarrow> getTime dt \<le> getTime hi))"

section \<open>The component: \<open>DatePicker.tsx\<close>\<close>

text \<open>
  The props of \<open>DatePicker\<close>: the selected date, owned by the caller, and the optional
  bounds. The \<open>onChange\<close> prop is the caller's callback; the model records every call
  of it, with its argument, in \<open>onChangeCalls\<close>.
\<close>

record DatePickerProps =
  "value" :: Date
  min_bound :: "Date option"
  max_bound :: "Date option"

text \<open>
  The state the two components keep with \<open>useState\<close>: \<open>showPopup\<close> and
  \<open>inputValue\<close> in \<open>DatePicker\<close>, \<open>panelYear\<close> and \<open>panelMonth\<close> in
  \<open>DatePickerPoputContent\<close> (mounted while the popup shows). A handler reads the state
  of the render it was created in and returns the state after its setter calls.
\<close>

record PickerState =
  showPopup :: bool
  inputValue :: string
  panelYear :: int
  panelMonth :: int
  onChangeCalls :: "Date list"

subsection \<open>\<open>DatePicker\<close>\<close>

text \<open>The layout effect on \<open>value\<close>: \<open>setInputValue(getInputValueFromDate(value))\<close>.\<close>

definition syncInputValueEffect :: "DatePickerProps \<Rightarrow> PickerState \<Rightarrow> PickerState" where
  "syncInputValueEffect props st = st\<lparr>inputValue := getInputValueFromDate (value props)\<rparr>"

definition updateValueOnPopupCloseAction :: "DatePickerProps \<Rightarrow> PickerState \<Rightarrow> PickerState" where
  "updateValueOnPopupCloseAction props st =
     (let date = getDateFromInputValue (inputValue st);
          st1 = st\<lparr>showPopup := False\<rparr>
      in case date of
           None \<Rightarrow> st1\<lparr>inputValue := getInputValueFromDate (value props)\<rparr>
         | Some d \<Rightarrow>
             (let isDateInRange = isInRange d (min_bound props) (max_bound props)
              in if \<not> isDateInRange then st1
                 else st1\<lparr>onChangeCalls := onChangeCalls st1 @ [d]\<rparr>))"

text \<open>
  The target of a document click, as \<open>onDocumentClick\<close> tells it apart: not a
  \<open>Node\<close>, a node the root element contains, or a node outside it. The listener calls
  the action through the \<open>useLatest\<close> reference, which holds the closure of the latest
  render: the action runs on the current props and state.
\<close>

datatype ClickTarget = NotANode | InsideElement | OutsideElement

definition onDocumentClick :: "DatePickerProps \<Rightarrow> ClickTarget \<Rightarrow> PickerState \<Rightarrow> PickerState" where
  "onDocumentClick props target st =
     (if target = NotANode then st
      else if target = InsideElement then st
      else updateValueOnPopupCloseAction props st)"


text \<open>
  \<open>e.target.value.trim()\<close>: the white space of \<open>String.prototype.trim\<close> among 8-bit
  characters is tab, line feed, vertical tab, form feed, carriage return, space and
  no-break space.
\<close>

definition isWhiteSpace :: "char \<Rightarrow> bool" where
  "isWhiteSpace c = (of_char c \<in> {9, 10, 11, 12, 13, 32, 160 :: nat})"

definition trim :: "string \<Rightarrow> string" where
  "trim s = rev (dropWhile isWhiteSpace (rev (dropWhile isWhiteSpace s)))"

definition onInputValueChange :: "string \<Rightarrow> PickerState \<Rightarrow> PickerState" where
  "onInputValueChange text st = st\<lparr>inputValue := trim text\<rparr>"

definition onInputClick :: "PickerState \<Rightarrow> PickerState" where
  "onInputClick st = st\<lparr>showPopup := True\<rparr>"

text \<open>The memo \<open>[inputValueDate, isValidInputValue]\<close>.\<close>

definition inputValueMemo :: "DatePickerProps \<Rightarrow> PickerState \<Rightarrow> Date option \<times> bool" where
  "inputValueMemo props st =
     (case getDateFromInputValue (inputValue st) of
        None \<Rightarrow> (None, False)
      | Some d \<Rightarrow>
          (let isDateInRange = isInRange d (min_bound props) (max_bound props)
           in (Some d, True)))"

definition inputValueDate :: "DatePickerProps \<Rightarrow> PickerState \<Rightarrow> Date option" where
  "inputValueDate props st = fst (inputValueMemo props st)"

definition isValidInputValue :: "DatePickerProps \<Rightarrow> PickerState \<Rightarrow> bool" where
  "isValidInputValue props st = snd (inputValueMemo props st)"

definition onKeyDown :: "DatePickerProps \<Rightarrow> string \<Rightarrow> PickerState \<Rightarrow> PickerState" where
  "onKeyDown props key st =
     (if key \<noteq> ''Enter'' then st else updateValueOnPopupCloseAction props st)"

subsection \<open>\<open>DatePickerPoputContent\<close>\<close>

text \<open>
  The layout effect on \<open>inputValueDate\<close>, which the popup receives from the memo
  above.
\<close>

definition panelSyncEffect :: "Date option \<Rightarrow> PickerState \<Rightarrow> PickerState" where
  "panelSyncEffect ivd st =
     (case ivd of
        None \<Rightarrow> st
      | Some d \<Rightarrow> (st\<lparr>panelMonth := getMonth d\<rparr>)\<lparr>panelYear := getFullYear d\<rparr>)"

definition dateCells :: "int \<Rightarrow> int \<Rightarrow> DateCellItem list" where
  "dateCells pYear pMonth =
     (let daysInAMonth = getDaysAmountInAMonth pYear pMonth;
          currentMonthDays = getCurrentMonthDays pYear pMonth daysInAMonth;
          prevMonthDays = getPreviousMonthDays pYear pMonth;
          nextMonthDays = getNextMonthDays pYear pMonth
      in prevMonthDays @ currentMonthDays @ nextMonthDays)"


definition nextYear :: "PickerState \<Rightarrow> PickerState" where
  "nextYear st = st\<lparr>panelYear := panelYear st + 1\<rparr>"

definition prevYear :: "PickerState \<Rightarrow> PickerState" where
  "prevYear st = st\<lparr>panelYear := panelYear st - 1\<rparr>"

definition nextMonth :: "PickerState \<Rightarrow> PickerState" where
  "nextMonth st =
     (if panelMonth st = 11 then (st\<lparr>panelMonth := 0\<rparr>)\<lparr>panelYear := panelYear st + 1\<rparr>
      else st\<lparr>panelMonth := panelMonth st + 1\<rparr>)"

definition prevMonth :: "PickerState \<Rightarrow> PickerState" where
  "prevMonth st =
     (if panelMonth st = 0 then (st\<lparr>panelMonth := 11\<rparr>)\<lparr>panelYear := panelYear st - 1\<rparr>
      else st\<lparr>panelMonth := panelMonth st - 1\<rparr>)"

text \<open>
  Per cell, the range test of the grid's \<open>map\<close> and the class it adds:
  \<open>!isDateInRange && "calendar-panel-item--not-in-range"\<close>.
\<close>

definition cellIsDateInRange :: "DatePickerProps \<Rightarrow> DateCellItem \<Rightarrow> bool" where
  "cellIsDateInRange props cell =
     isInRange (Date_new (year cell) (month cell - 1) (date cell))
       (min_bound props) (max_bound props)"

definition cellNotInRange :: "DatePickerProps \<Rightarrow> DateCellItem \<Rightarrow> bool" where
  "cellNotInRange props cell = (\<not> cellIsDateInRange props cell)"

section \<open>Example props, states and cells\<close>

text \<open>
  The examples of the specification's testable properties: bounds that span May 2023
  (and June 2023), the selected date 2023-05-15, and a state with a given input text.
\<close>

definition may2023_props :: DatePickerProps where
  "may2023_props =
     \<lparr>value = Date_new 2023 4 15,
      min_bound = Some (Date_new 2023 4 1), max_bound = Some (Date_new 2023 4 31)\<rparr>"

definition june2023_props :: DatePickerProps where
  "june2023_props =
     \<lparr>value = Date_new 2023 5 15,
      min_bound = Some (Date_new 2023 5 1), max_bound = Some (Date_new 2023 5 30)\<rparr>"

definition typed :: "string \<Rightarrow> bool \<Rightarrow> PickerState" where
  "typed t popup =
     \<lparr>showPopup = popup, inputValue = t, panelYear = 2023, panelMonth = 4,
      onChangeCalls = []\<rparr>"

definition october_panel :: PickerState where
  "october_panel = (typed ''2023-10-05'' True)\<lparr>panelMonth := 9\<rparr>"

definition june15_cell :: DateCellItem where
  "june15_cell = \<lparr>year = 2023, month = 5, date = 15, type = Current\<rparr>"


section \<open>Facts about the examples\<close>

lemma typed_fields:
  "showPopup (typed t b) = b" "inputValue (typed t b) = t" "onChangeCalls (typed t b) = []"
  "panelYear (typed t b) = 2023" "panelMonth (typed t b) = 4"
  by (simp_all add: typed_def)

lemma october_panel_fields:
  "panelMonth october_panel = 9" "panelYear october_panel = 2023"
  "inputValue october_panel = ''2023-10-05''" "onChangeCalls october_panel = []"
  by (simp_all add: october_panel_def typed_def)



lemma parse_june_first: "getDateFromInputValue ''2023-06-01'' = Some (Date_new 2023 5 1)"
  by code_simp

lemma parse_may_20: "getDateFromInputValue ''2023-05-20'' = Some (Date_new 2023 4 20)"
  by code_simp

lemma parse_garbage: "getDateFromInputValue ''abcd'' = None"
  by code_simp

lemma june_first_outside_may:
  "\<not> isInRange (Date_new 2023 5 1) (min_bound may2023_props) (max_bound may2023_props)"
  by code_simp


lemma may_20_inside_may:
  "isInRange (Date_new 2023 4 20) (min_bound may2023_props) (max_bound may2023_props)"
  by code_simp

lemma format_may_15: "getInputValueFromDate (value may2023_props) = ''2023-05-15''"
  by code_simp

lemma june_first_fields:
  "getFullYear (Date_new 2023 5 1) = 2023" "getMonth (Date_new 2023 5 1) = 5"
  by code_simp+

section \<open>Calendar arithmetic\<close>

lemma div_step:
  fixes a k :: int
  assumes "0 < k"
  shows "(a + 1) div k = a div k + (if (a + 1) mod k = 0 then 1 else 0)"
proof (cases "a mod k = k - 1")
  case True
  have "k * (a div k + 1) = k * (a div k) + k"
    by (simp add: algebra_simps)
  then have e: "a + 1 = k * (a div k + 1) + 0"
    using True mult_div_mod_eq [of k a] by linarith
  have "(a + 1) div k = a div k + 1"
    by (rule int_div_pos_eq [OF e]) (use assms in simp_all)
  moreover have "(a + 1) mod k = 0"
    by (rule int_mod_pos_eq [OF e]) (use assms in simp_all)
  ultimately show ?thesis by simp
next
  case False
  have nonneg: "0 \<le> a mod k"
    using assms by simp
  with False assms have lt: "a mod k + 1 < k"
    using pos_mod_bound [of k a] by linarith
  have e: "a + 1 = k * (a div k) + (a mod k + 1)"
    using mult_div_mod_eq [of k a] by simp
  have "(a + 1) div k = a div k"
    by (rule int_div_pos_eq [OF e]) (use nonneg lt in simp_all)
  moreover have "(a + 1) mod k = a mod k + 1"
    by (rule int_mod_pos_eq [OF e]) (use nonneg lt in simp_all)
  ultimately show ?thesis
    using nonneg by simp
qed

lemma mod_400_100: "(y::int) mod 400 = 0 \<Longrightarrow> y mod 100 = 0"
proof -
  assume "y mod 400 = 0"
  then have "400 dvd y" by (simp add: dvd_eq_mod_eq_0)
  moreover have "(100::int) dvd 400" by simp
  ultimately have "100 dvd y" by (rule dvd_trans [rotated])
  then show ?thesis by simp
qed

lemma mod_100_4: "(y::int) mod 100 = 0 \<Longrightarrow> y mod 4 = 0"
proof -
  assume "y mod 100 = 0"
  then have "100 dvd y" by (simp add: dvd_eq_mod_eq_0)
  moreover have "(4::int) dvd 100" by simp
  ultimately have "4 dvd y" by (rule dvd_trans [rotated])
  then show ?thesis by simp
qed

lemma shift_mod:
  fixes y :: int
  shows "(y - 1968) mod 4 = y mod 4" "(y - 1900) mod 100 = y mod 100"
    "(y - 1600) mod 400 = y mod 400"
proof -
  have "(y + (- 492) * 4) mod 4 = y mod 4" by (rule mod_mult_self1)
  then show "(y - 1968) mod 4 = y mod 4" by simp
  have "(y + (- 19) * 100) mod 100 = y mod 100" by (rule mod_mult_self1)
  then show "(y - 1900) mod 100 = y mod 100" by simp
  have "(y + (- 4) * 400) mod 400 = y mod 400" by (rule mod_mult_self1)
  then show "(y - 1600) mod 400 = y mod 400" by simp
qed

lemma year_div_steps:
  fixes y :: int
  shows "(y - 1968) div 4 = (y - 1969) div 4 + (if y mod 4 = 0 then 1 else 0)"
    and "(y - 1900) div 100 = (y - 1901) div 100 + (if y mod 100 = 0 then 1 else 0)"
    and "(y - 1600) div 400 = (y - 1601) div 400 + (if y mod 400 = 0 then 1 else 0)"
proof -
  have "y - 1969 + 1 = y - 1968" "y - 1901 + 1 = y - 1900" "y - 1601 + 1 = y - 1600"
    by simp_all
  then show "(y - 1968) div 4 = (y - 1969) div 4 + (if y mod 4 = 0 then 1 else 0)"
    and "(y - 1900) div 100 = (y - 1901) div 100 + (if y mod 100 = 0 then 1 else 0)"
    and "(y - 1600) div 400 = (y - 1601) div 400 + (if y mod 400 = 0 then 1 else 0)"
    using div_step [of 4 "y - 1969"] div_step [of 100 "y - 1901"] div_step [of 400 "y - 1601"]
    by (simp_all only: shift_mod)
qed


lemma DayFromYear_step: "DayFromYear (y + 1) = DayFromYear y + DaysInYear y"
proof -
  define a b c where "a = (y - 1969) div 4" and "b = (y - 1901) div 100"
    and "c = (y - 1601) div 400"
  define p4 p100 p400 where "p4 \<longleftrightarrow> y mod 4 = 0" and "p100 \<longleftrightarrow> y mod 100 = 0"
    and "p400 \<longleftrightarrow> y mod 400 = 0"
  have sh: "y + 1 - 1970 = y - 1969" "y + 1 - 1969 = y - 1968" "y + 1 - 1901 = y - 1900"
    "y + 1 - 1601 = y - 1600"
    by simp_all
  have next_year: "DayFromYear (y + 1) =
      365 * (y - 1969) + (a + (if p4 then 1 else 0)) - (b + (if p100 then 1 else 0)) +
      (c + (if p400 then 1 else 0))"
    unfolding DayFromYear_def sh year_div_steps a_def b_def c_def p4_def p100_def p400_def
    by (rule refl)
  have this_year: "DayFromYear y = 365 * (y - 1970) + a - b + c"
    unfolding DayFromYear_def a_def b_def c_def by (rule refl)
  have len: "DaysInYear y =
      (if \<not> p4 then 365 else if \<not> p100 then 366 else if \<not> p400 then 365 else 366)"
    unfolding DaysInYear_def p4_def p100_def p400_def by (rule refl)
  have "p400 \<Longrightarrow> p100" "p100 \<Longrightarrow> p4"
    unfolding p4_def p100_def p400_def by (rule mod_400_100, assumption) (rule mod_100_4)
  then show ?thesis
    unfolding next_year this_year len
    by (cases p4; cases p100; cases p400; simp)
qed

lemma DaysInYear_isLeapYear: "DaysInYear y = (if isLeapYear y then 366 else 365)"
proof -
  define p4 p100 p400 where "p4 \<longleftrightarrow> y mod 4 = 0" and "p100 \<longleftrightarrow> y mod 100 = 0"
    and "p400 \<longleftrightarrow> y mod 400 = 0"
  have len: "DaysInYear y =
      (if \<not> p4 then 365 else if \<not> p100 then 366 else if \<not> p400 then 365 else 366)"
    unfolding DaysInYear_def p4_def p100_def p400_def by (rule refl)
  have leap: "isLeapYear y \<longleftrightarrow> p4 \<and> (\<not> p100 \<or> p400)"
    unfolding isLeapYear_def p4_def p100_def p400_def by (rule refl)
  have "p400 \<Longrightarrow> p100" "p100 \<Longrightarrow> p4"
    unfolding p4_def p100_def p400_def by (rule mod_400_100, assumption) (rule mod_100_4)
  then show ?thesis
    unfolding len leap
    by (cases p4; cases p100; cases p400; simp)
qed

lemma InLeapYear_isLeapYear: "InLeapYear y = (if isLeapYear y then 1 else 0)"
  by (simp add: InLeapYear_def DaysInYear_isLeapYear)

lemma MakeDay_in_year:
  "0 \<le> m \<Longrightarrow> m \<le> 11 \<Longrightarrow>
   MakeDay y m d = DayFromYear y + DayWithinYearOfMonth (InLeapYear y) m + d - 1"
  by (simp add: MakeDay_def Let_def)

lemma MakeDay_month_12: "MakeDay y 12 d = DayFromYear (y + 1) + d - 1"
  by (simp add: MakeDay_def Let_def DayWithinYearOfMonth_def)

lemma month_cases:
  "0 \<le> (m::int) \<Longrightarrow> m \<le> 11 \<Longrightarrow>
   m = 0 \<or> m = 1 \<or> m = 2 \<or> m = 3 \<or> m = 4 \<or> m = 5 \<or> m = 6 \<or> m = 7 \<or> m = 8 \<or> m = 9 \<or>
   m = 10 \<or> m = 11"
  by arith

lemma month_length_table:
  assumes "0 \<le> m" and "m < 11"
  shows "DayWithinYearOfMonth (InLeapYear y) (m + 1) - DayWithinYearOfMonth (InLeapYear y) m =
         getDaysAmountInAMonth y m"
proof -
  from assms have "m = 0 \<or> m = 1 \<or> m = 2 \<or> m = 3 \<or> m = 4 \<or> m = 5 \<or> m = 6 \<or> m = 7 \<or>
      m = 8 \<or> m = 9 \<or> m = 10"
    by arith
  then show ?thesis
    by (elim disjE)
      (simp_all add: DayWithinYearOfMonth_def getDaysAmountInAMonth_def InLeapYear_isLeapYear)
qed

lemma days_in_month_host:
  assumes "0 \<le> m" and "m \<le> 11"
  shows "getDaysAmountInAMonth y m = MakeDay y (m + 1) 1 - MakeDay y m 1"
proof (cases "m = 11")
  case True
  then show ?thesis
    by (simp add: MakeDay_month_12 MakeDay_in_year DayFromYear_step DaysInYear_isLeapYear
        InLeapYear_isLeapYear getDaysAmountInAMonth_def DayWithinYearOfMonth_def)
next
  case False
  with assms have b: "0 \<le> m + 1" "m + 1 \<le> 11" "m < 11" by simp_all
  have "MakeDay y (m + 1) 1 - MakeDay y m 1 =
      DayWithinYearOfMonth (InLeapYear y) (m + 1) - DayWithinYearOfMonth (InLeapYear y) m"
    by (simp only: MakeDay_in_year [OF b(1,2)] MakeDay_in_year [OF assms])
  also have "\<dots> = getDaysAmountInAMonth y m"
    by (rule month_length_table [OF assms(1) b(3)])
  finally show ?thesis by simp
qed

subsection \<open>The year, month and day of a day number\<close>

text \<open>
  \<open>YearFromDay\<close> meets ECMAScript's description of \<open>YearFromTime\<close>: it is the
  largest year that starts on or before the day. The fields of the day number that
  \<open>MakeDay\<close> gives a real calendar date are that date's.
\<close>

lemma div_lower: "0 < k \<Longrightarrow> k * (x div k) \<le> x" for x k :: int
  using mult_div_mod_eq [of k x] pos_mod_sign [of k x] by linarith

lemma div_upper: "0 < k \<Longrightarrow> x < k * (x div k) + k" for x k :: int
  using mult_div_mod_eq [of k x] pos_mod_bound [of k x] by linarith

lemma DayFromYear_bounds:
  "146097 * (y - 1970) - 506 \<le> 400 * DayFromYear y \<and>
   400 * DayFromYear y \<le> 146097 * (y - 1970) + 589"
proof -
  define a b c where "a = (y - 1969) div 4" and "b = (y - 1901) div 100"
    and "c = (y - 1601) div 400"
  have a: "4 * a \<le> y - 1969" "y - 1969 < 4 * a + 4"
    unfolding a_def by (rule div_lower, simp) (rule div_upper, simp)
  have b: "100 * b \<le> y - 1901" "y - 1901 < 100 * b + 100"
    unfolding b_def by (rule div_lower, simp) (rule div_upper, simp)
  have c: "400 * c \<le> y - 1601" "y - 1601 < 400 * c + 400"
    unfolding c_def by (rule div_lower, simp) (rule div_upper, simp)
  have f: "DayFromYear y = 365 * (y - 1970) + a - b + c"
    unfolding DayFromYear_def a_def b_def c_def by (rule refl)
  from a b c show ?thesis
    unfolding f by (simp add: algebra_simps)
qed

lemma DayFromYear_strict_mono:
  assumes "y < z"
  shows "DayFromYear y < DayFromYear z"
proof -
  define fy fz where "fy = DayFromYear y" and "fz = DayFromYear z"
  have "400 * fy \<le> 146097 * (y - 1970) + 589" "146097 * (z - 1970) - 506 \<le> 400 * fz"
    unfolding fy_def fz_def using DayFromYear_bounds by blast+
  with assms have "fy < fz" by (simp add: algebra_simps)
  then show ?thesis
    unfolding fy_def fz_def .
qed

lemma year_unique:
  assumes "DayFromYear y \<le> n" "n < DayFromYear (y + 1)"
    and "DayFromYear z \<le> n" "n < DayFromYear (z + 1)"
  shows "y = z"
proof (rule ccontr)
  assume "y \<noteq> z"
  then consider "y < z" | "z < y" by linarith
  then show False
  proof cases
    case 1
    then have "y + 1 = z \<or> y + 1 < z" by linarith
    then have "DayFromYear (y + 1) \<le> DayFromYear z"
      using DayFromYear_strict_mono [of "y + 1" z] by auto
    with assms show False by linarith
  next
    case 2
    then have "z + 1 = y \<or> z + 1 < y" by linarith
    then have "DayFromYear (z + 1) \<le> DayFromYear y"
      using DayFromYear_strict_mono [of "z + 1" y] by auto
    with assms show False by linarith
  qed
qed

lemma YearFromDay_spec:
  "DayFromYear (YearFromDay n) \<le> n \<and> n < DayFromYear (YearFromDay n + 1)"
proof -
  define q where "q = (400 * n) div 146097"
  define f0 f1 f2 f3 where "f0 = DayFromYear (1970 + q - 1)" and "f1 = DayFromYear (1970 + q)"
    and "f2 = DayFromYear (1970 + q + 1)" and "f3 = DayFromYear (1970 + q + 1 + 1)"
  have q: "146097 * q \<le> 400 * n" "400 * n < 146097 * q + 146097"
    unfolding q_def by (rule div_lower, simp) (rule div_upper, simp)
  have "400 * f0 \<le> 146097 * (1970 + q - 1 - 1970) + 589"
    unfolding f0_def using DayFromYear_bounds by blast
  with q have low: "f0 \<le> n" by (simp add: algebra_simps)
  have "146097 * (1970 + q + 1 + 1 - 1970) - 506 \<le> 400 * f3"
    unfolding f3_def using DayFromYear_bounds by blast
  with q have high: "n < f3" by (simp add: algebra_simps)
  have y: "YearFromDay n =
      (if f2 \<le> n then 1970 + q + 1 else if f1 \<le> n then 1970 + q else 1970 + q - 1)"
    unfolding YearFromDay_def Let_def q_def f1_def f2_def by (rule refl)
  have shift: "1970 + q - 1 + 1 = 1970 + q" by simp
  consider "f2 \<le> n" | "\<not> f2 \<le> n" "f1 \<le> n" | "\<not> f2 \<le> n" "\<not> f1 \<le> n"
    by blast
  then show ?thesis
  proof cases
    case 1
    then have "YearFromDay n = 1970 + q + 1"
      unfolding y by (simp only: if_True)
    with 1 high show ?thesis
      unfolding f2_def f3_def by (simp only:)
  next
    case 2
    then have "YearFromDay n = 1970 + q"
      unfolding y by (simp only: if_True if_False)
    with 2 show ?thesis
      unfolding f1_def f2_def by (simp only: not_le)
  next
    case 3
    then have "YearFromDay n = 1970 + q - 1"
      unfolding y by (simp only: if_False)
    with 3 low show ?thesis
      unfolding f0_def f1_def by (simp only: not_le shift)
  qed
qed

lemma YearFromDay_eq:
  assumes "DayFromYear y \<le> n" and "n < DayFromYear (y + 1)"
  shows "YearFromDay n = y"
  using year_unique [OF _ _ assms] YearFromDay_spec [of n] by blast

lemma YearFromDay_largest:
  assumes "DayFromYear z \<le> n"
  shows "z \<le> YearFromDay n"
proof (rule ccontr)
  assume "\<not> z \<le> YearFromDay n"
  then have "YearFromDay n + 1 = z \<or> YearFromDay n + 1 < z" by linarith
  then have "DayFromYear (YearFromDay n + 1) \<le> DayFromYear z"
    using DayFromYear_strict_mono [of "YearFromDay n + 1" z] by auto
  with assms YearFromDay_spec [of n] show False by linarith
qed

lemma Day_of_midnight: "Day (k * msPerDay) = k"
  by (simp add: Day_def msPerDay_def)

lemma InLeapYear_cases: "InLeapYear y = 0 \<or> InLeapYear y = 1"
  by (simp add: InLeapYear_def)

lemma daysAmount_InLeapYear:
  "getDaysAmountInAMonth y m =
     (if m = 1 then 28 + InLeapYear y else if m = 3 \<or> m = 5 \<or> m = 8 \<or> m = 10 then 30 else 31)"
  by (simp add: getDaysAmountInAMonth_def InLeapYear_isLeapYear)

lemma DaysInYear_InLeapYear: "DaysInYear y = 365 + InLeapYear y"
  by (simp add: DaysInYear_isLeapYear InLeapYear_isLeapYear)

text \<open>The fields of a day number that lies \<open>k\<close> days into year \<open>y\<close>.\<close>

lemma fields_of_offset:
  assumes n: "n = DayFromYear y + k" and k: "0 \<le> k" "k < DaysInYear y"
  shows "YearFromDay n = y"
    and "MonthFromDay n =
      (let leap = InLeapYear y
       in if k < 31 then 0
          else if k < 59 + leap then 1
          else if k < 90 + leap then 2
          else if k < 120 + leap then 3
          else if k < 151 + leap then 4
          else if k < 181 + leap then 5
          else if k < 212 + leap then 6
          else if k < 243 + leap then 7
          else if k < 273 + leap then 8
          else if k < 304 + leap then 9
          else if k < 334 + leap then 10
          else 11)"
proof -
  from n k have "DayFromYear y \<le> n" "n < DayFromYear (y + 1)"
    by (simp_all add: DayFromYear_step)
  then show yr: "YearFromDay n = y"
    by (rule YearFromDay_eq)
  have off: "n - DayFromYear y = k"
    using n by simp
  show "MonthFromDay n =
      (let leap = InLeapYear y
       in if k < 31 then 0
          else if k < 59 + leap then 1
          else if k < 90 + leap then 2
          else if k < 120 + leap then 3
          else if k < 151 + leap then 4
          else if k < 181 + leap then 5
          else if k < 212 + leap then 6
          else if k < 243 + leap then 7
          else if k < 273 + leap then 8
          else if k < 304 + leap then 9
          else if k < 334 + leap then 10
          else 11)"
    unfolding MonthFromDay_def Let_def yr off by (rule refl)
qed

lemma month_offset_bounds:
  assumes "0 \<le> m" and "m \<le> 11" and "1 \<le> d" and "d \<le> getDaysAmountInAMonth y m"
  shows "0 \<le> DayWithinYearOfMonth (InLeapYear y) m + d - 1"
    and "DayWithinYearOfMonth (InLeapYear y) m + d - 1 < DaysInYear y"
  using month_cases [OF assms(1,2)] InLeapYear_cases [of y] assms(3,4)
  unfolding daysAmount_InLeapYear DaysInYear_InLeapYear
  by (elim disjE; simp add: DayWithinYearOfMonth_def)+

lemma fields_of_MakeDay:
  assumes "0 \<le> m" and "m \<le> 11" and "1 \<le> d" and "d \<le> getDaysAmountInAMonth y m"
  shows "YearFromDay (MakeDay y m d) = y" and "MonthFromDay (MakeDay y m d) = m"
    and "DateFromDay (MakeDay y m d) = d"
proof -
  define k where "k = DayWithinYearOfMonth (InLeapYear y) m + d - 1"
  have n: "MakeDay y m d = DayFromYear y + k"
    unfolding k_def using assms(1,2) by (simp add: MakeDay_in_year)
  have k: "0 \<le> k" "k < DaysInYear y"
    unfolding k_def by (rule month_offset_bounds [OF assms])+
  show yr: "YearFromDay (MakeDay y m d) = y"
    by (rule fields_of_offset(1) [OF n k])
  show mo: "MonthFromDay (MakeDay y m d) = m"
    unfolding fields_of_offset(2) [OF n k] k_def Let_def
    using month_cases [OF assms(1,2)] InLeapYear_cases [of y] assms(3,4)
    unfolding daysAmount_InLeapYear
    by (elim disjE; simp add: DayWithinYearOfMonth_def)
  show "DateFromDay (MakeDay y m d) = d"
    unfolding DateFromDay_def Let_def yr mo
    by (simp add: n k_def)
qed

lemma calendarDateOf_dateOfCalendarDate:
  "validCalendarDate c \<Longrightarrow> calendarDateOf (dateOfCalendarDate c) = c"
  by (cases c)
    (simp add: validCalendarDate_def calendarDateOf_def dateOfCalendarDate_def getFullYear_def
      getMonth_def getDate_def Day_of_midnight fields_of_MakeDay)

text \<open>
  The dates of the years -271820 to 275759 lie within the 100,000,000 days either side
  of 1970 that a time value spans.
\<close>

lemma MakeDay_in_time_range:
  assumes "validCalendarDate (y, m, d)" and "- 271820 \<le> y" and "y \<le> 275759"
  shows "\<bar>MakeDay y m d * msPerDay\<bar> \<le> 8640000000000000"
proof -
  from assms(1) have v: "0 \<le> m" "m \<le> 11" "1 \<le> d" "d \<le> getDaysAmountInAMonth y m"
    by (simp_all add: validCalendarDate_def)
  define f where "f = DayFromYear y"
  define k where "k = DayWithinYearOfMonth (InLeapYear y) m + d - 1"
  have n: "MakeDay y m d = f + k"
    unfolding f_def k_def using v(1,2) by (simp add: MakeDay_in_year)
  have "0 \<le> k" "k < DaysInYear y"
    unfolding k_def by (rule month_offset_bounds [OF v])+
  then have k: "0 \<le> k" "k \<le> 365"
    using InLeapYear_cases [of y] by (auto simp: DaysInYear_InLeapYear)
  have "146097 * (y - 1970) - 506 \<le> 400 * f" "400 * f \<le> 146097 * (y - 1970) + 589"
    unfolding f_def using DayFromYear_bounds by blast+
  with assms(2,3) have f: "- 99999746 \<le> f" "f \<le> 99999381"
    by (simp_all add: algebra_simps)
  from f k have "- 100000000 \<le> f + k" "f + k \<le> 100000000"
    by linarith+
  then show ?thesis
    unfolding n msPerDay_def by (simp add: abs_le_iff)
qed

text \<open>
  The last day a time value reaches is 13 September 275760; a day later, and in the
  year 300000, the constructor gives an Invalid Date.
\<close>

lemma Date_new_time_range_examples:
  "Date_new 275760 8 13 = Date 8640000000000000"
  "Date_new 275760 8 14 = InvalidDate"
  "Date_new 300000 0 1 = InvalidDate"
  by code_simp+

lemma Date_new_valid:
  assumes "validCalendarDate (y, m, d)" and "- 271820 \<le> y" and "y \<le> 275759"
    and "y < 0 \<or> 99 < y"
  shows "Date_new y m d = dateOfCalendarDate (y, m, d)"
  using MakeDay_in_time_range [OF assms(1-3)] assms(4)
  by (auto simp: Date_new_def TimeClip_def dateOfCalendarDate_def)

lemma Date_new_two_digit_year:
  assumes "validCalendarDate (1900 + y, m, d)" and "0 \<le> y" and "y \<le> 99"
  shows "Date_new y m d = dateOfCalendarDate (1900 + y, m, d)"
proof -
  from assms(2,3) have "- 271820 \<le> 1900 + y" "1900 + y \<le> 275759"
    by simp_all
  from MakeDay_in_time_range [OF assms(1) this] assms(2,3) show ?thesis
    by (simp add: Date_new_def TimeClip_def dateOfCalendarDate_def)
qed

lemma calendarDateOf_Date_new:
  assumes "validCalendarDate (y, m, d)" and "- 271820 \<le> y" and "y \<le> 275759"
    and "y < 0 \<or> 99 < y"
  shows "calendarDateOf (Date_new y m d) = (y, m, d)"
  by (simp add: Date_new_valid [OF assms] calendarDateOf_dateOfCalendarDate [OF assms(1)])

lemma calendarDateOf_Date_new_two_digit_year:
  assumes "validCalendarDate (1900 + y, m, d)" and "0 \<le> y" and "y \<le> 99"
  shows "calendarDateOf (Date_new y m d) = (1900 + y, m, d)"
  by (simp add: Date_new_two_digit_year [OF assms]
      calendarDateOf_dateOfCalendarDate [OF assms(1)])

section \<open>The day count of a month\<close>

text \<open>
  C9. For a zero-based month in 0..11, \<open>getDaysAmountInAMonth\<close> is the Gregorian day
  count of the month: the number of days the host calendar puts between the first of the
  month and the first of the next; 30 for April, June, September and November, 31 for
  the other months but February; 29 for February exactly when the year is divisible by 4
  and not by 100 unless also by 400, and 28 otherwise. February 2024 has 29 days and
  February 2023 has 28.
\<close>

theorem days_in_month_gregorian:
  assumes "0 \<le> m" and "m \<le> 11"
  shows "getDaysAmountInAMonth y m = MakeDay y (m + 1) 1 - MakeDay y m 1 \<and>
         (getDaysAmountInAMonth y 1 = 29 \<longleftrightarrow> 4 dvd y \<and> (\<not> 100 dvd y \<or> 400 dvd y)) \<and>
         (getDaysAmountInAMonth y 1 = 28 \<longleftrightarrow> \<not> (4 dvd y \<and> (\<not> 100 dvd y \<or> 400 dvd y))) \<and>
         (m \<in> {3, 5, 8, 10} \<longrightarrow> getDaysAmountInAMonth y m = 30) \<and>
         (m \<in> {0, 2, 4, 6, 7, 9, 11} \<longrightarrow> getDaysAmountInAMonth y m = 31) \<and>
         getDaysAmountInAMonth 2024 1 = 29 \<and> getDaysAmountInAMonth 2023 1 = 28"
proof -
  have leap: "isLeapYear y \<longleftrightarrow> 4 dvd y \<and> (\<not> 100 dvd y \<or> 400 dvd y)"
    by (simp add: isLeapYear_def dvd_eq_mod_eq_0)
  have feb: "getDaysAmountInAMonth y 1 = (if isLeapYear y then 29 else 28)"
    by (simp add: getDaysAmountInAMonth_def)
  have "getDaysAmountInAMonth 2024 1 = 29" "getDaysAmountInAMonth 2023 1 = 28"
    by (simp_all add: getDaysAmountInAMonth_def isLeapYear_def)
  moreover have "m \<in> {3, 5, 8, 10} \<longrightarrow> getDaysAmountInAMonth y m = 30"
    "m \<in> {0, 2, 4, 6, 7, 9, 11} \<longrightarrow> getDaysAmountInAMonth y m = 31"
    by (auto simp: getDaysAmountInAMonth_def)
  moreover have "getDaysAmountInAMonth y 1 = 29 \<longleftrightarrow> 4 dvd y \<and> (\<not> 100 dvd y \<or> 400 dvd y)"
    "getDaysAmountInAMonth y 1 = 28 \<longleftrightarrow> \<not> (4 dvd y \<and> (\<not> 100 dvd y \<or> 400 dvd y))"
    unfolding feb leap [symmetric] by simp_all
  ultimately show ?thesis
    using days_in_month_host [OF assms] by blast
qed

theorem days_in_month_gregorian_witness:
  "getDaysAmountInAMonth 2024 1 = MakeDay 2024 2 1 - MakeDay 2024 1 1 \<and>
   getDaysAmountInAMonth 2024 1 = 29 \<and> getDaysAmountInAMonth 1900 1 = 28 \<and>
   getDaysAmountInAMonth 2000 1 = 29"
proof -
  have d: "(4::int) dvd 2000" "(400::int) dvd 2000" "(4::int) dvd 1900" "(100::int) dvd 1900"
    "\<not> (400::int) dvd 1900"
    by simp_all
  from days_in_month_gregorian [of 1 2024] days_in_month_gregorian [of 1 1900]
    days_in_month_gregorian [of 1 2000] d
  show ?thesis by simp
qed

section \<open>The grid of a panel\<close>

lemma firstWeekDay_bounds: "0 \<le> firstWeekDay y m \<and> firstWeekDay y m \<le> 6"
proof -
  have "0 \<le> (MakeDay y m 1 + 4) mod 7" "(MakeDay y m 1 + 4) mod 7 < 7"
    by simp_all
  then show ?thesis
    unfolding firstWeekDay_def WeekDay_def by linarith
qed

lemma daysAmount_bounds: "28 \<le> getDaysAmountInAMonth y m \<and> getDaysAmountInAMonth y m \<le> 31"
  by (simp add: getDaysAmountInAMonth_def)

lemma length_getCurrentMonthDays: "length (getCurrentMonthDays y m n) = nat n"
  by (simp add: getCurrentMonthDays_def)

lemma length_getPreviousMonthDays:
  "length (getPreviousMonthDays y m) = nat (firstWeekDay y m)"
  by (simp add: getPreviousMonthDays_def Let_def)

lemma length_getNextMonthDays:
  "length (getNextMonthDays y m) = nat (42 - firstWeekDay y m - getDaysAmountInAMonth y m)"
  by (simp add: getNextMonthDays_def Let_def)

lemma types_getCurrentMonthDays:
  "map type (getCurrentMonthDays y m n) = replicate (nat n) Current"
  by (simp add: getCurrentMonthDays_def map_replicate_const comp_def)

lemma types_getPreviousMonthDays:
  "map type (getPreviousMonthDays y m) = replicate (nat (firstWeekDay y m)) Previous"
  by (simp add: getPreviousMonthDays_def Let_def map_replicate_const comp_def)

lemma types_getNextMonthDays:
  "map type (getNextMonthDays y m) =
     replicate (nat (42 - firstWeekDay y m - getDaysAmountInAMonth y m)) Next"
  by (simp add: getNextMonthDays_def Let_def map_replicate_const comp_def)

text \<open>
  C3. For a month in 0..11 the grid of the panel is the previous-month cells, then the
  current-month cells for the day count of the month, then the next-month cells; it has
  exactly 42 cells; and its tags are a run of \<open>previous\<close>, then as many \<open>current\<close>
  as the month has days, then a run of \<open>next\<close>.
\<close>

theorem grid_has_42_cells:
  assumes "0 \<le> m" and "m \<le> 11"
  shows "dateCells y m =
           getPreviousMonthDays y m @
           getCurrentMonthDays y m (getDaysAmountInAMonth y m) @ getNextMonthDays y m \<and>
         length (dateCells y m) = 42 \<and>
         length (getPreviousMonthDays y m) +
           length (getCurrentMonthDays y m (getDaysAmountInAMonth y m)) +
           length (getNextMonthDays y m) = 42 \<and>
         length (getCurrentMonthDays y m (getDaysAmountInAMonth y m)) =
           nat (getDaysAmountInAMonth y m) \<and>
         map type (dateCells y m) =
           replicate (length (getPreviousMonthDays y m)) Previous @
           replicate (nat (getDaysAmountInAMonth y m)) Current @
           replicate (length (getNextMonthDays y m)) Next"
proof -
  have cells: "dateCells y m =
      getPreviousMonthDays y m @
      getCurrentMonthDays y m (getDaysAmountInAMonth y m) @ getNextMonthDays y m"
    by (simp add: dateCells_def Let_def)
  have total: "nat (firstWeekDay y m) + nat (getDaysAmountInAMonth y m) +
      nat (42 - firstWeekDay y m - getDaysAmountInAMonth y m) = 42"
    using firstWeekDay_bounds [of y m] daysAmount_bounds [of y m] by linarith
  have tags: "map type (dateCells y m) =
      replicate (length (getPreviousMonthDays y m)) Previous @
      replicate (nat (getDaysAmountInAMonth y m)) Current @
      replicate (length (getNextMonthDays y m)) Next"
    unfolding cells
    by (simp add: types_getPreviousMonthDays types_getCurrentMonthDays types_getNextMonthDays
        length_getPreviousMonthDays length_getNextMonthDays)
  from cells total tags show ?thesis
    by (simp add: length_getPreviousMonthDays length_getCurrentMonthDays
        length_getNextMonthDays)
qed

theorem grid_has_42_cells_witness:
  "length (dateCells 2023 4) = 42 \<and>
   map type (dateCells 2023 4) = replicate 1 Previous @ replicate 31 Current @ replicate 10 Next"
proof -
  have l: "length (getPreviousMonthDays 2023 4) = 1" "length (getNextMonthDays 2023 4) = 10"
    "nat (getDaysAmountInAMonth 2023 4) = 31"
    by code_simp+
  have "0 \<le> (4::int)" "(4::int) \<le> 11"
    by simp_all
  note w = grid_has_42_cells [OF this, of 2023]
  from w [THEN conjunct2, THEN conjunct1]
    w [THEN conjunct2, THEN conjunct2, THEN conjunct2, THEN conjunct2]
  show ?thesis
    by (simp only: l)
qed

section \<open>Canonical format: parsing what was rendered\<close>

declare decimal.simps [simp del]

lemma digitChar_facts: "isDigit (digitChar n) \<and> digitVal (digitChar n) = n mod 10"
proof -
  have "n mod 10 < 10" by simp
  then have "n mod 10 = 0 \<or> n mod 10 = 1 \<or> n mod 10 = 2 \<or> n mod 10 = 3 \<or> n mod 10 = 4 \<or>
      n mod 10 = 5 \<or> n mod 10 = 6 \<or> n mod 10 = 7 \<or> n mod 10 = 8 \<or> n mod 10 = 9"
    by arith
  then show ?thesis
    by (elim disjE) (simp_all add: digitChar_def isDigit_def digitVal_def)
qed

lemma minus_not_digit: "\<not> isDigit (CHR ''-'')"
  by (simp add: isDigit_def)

lemma zero_digit: "isDigit (CHR ''0'')" "digitVal (CHR ''0'') = 0"
  by (simp_all add: isDigit_def digitVal_def)

lemma decimal_digits: "\<forall>c \<in> set (decimal n). isDigit c"
proof (induction n rule: decimal.induct)
  case (1 n)
  show ?case
  proof (cases "n < 10")
    case True
    then show ?thesis
      by (subst decimal.simps) (simp add: digitChar_facts)
  next
    case False
    with 1 show ?thesis
      by (subst decimal.simps) (simp add: digitChar_facts)
  qed
qed

lemma decimal_nonempty: "decimal n \<noteq> []"
  by (subst decimal.simps) simp

lemma numberOf_snoc: "numberOf (s @ [c]) = 10 * numberOf s + digitVal c"
  by (simp add: numberOf_def)

lemma numberOf_decimal: "numberOf (decimal n) = n"
proof (induction n rule: decimal.induct)
  case (1 n)
  show ?case
  proof (cases "n < 10")
    case True
    then show ?thesis
      by (subst decimal.simps) (simp add: numberOf_def digitChar_facts)
  next
    case False
    with 1 have "numberOf (decimal (n div 10)) = n div 10" by simp
    with False show ?thesis
      by (subst decimal.simps) (simp add: numberOf_snoc digitChar_facts)
  qed
qed

lemma foldl_zeros:
  "foldl (\<lambda>a c. 10 * a + digitVal c) 0 (replicate k (CHR ''0'')) = 0"
  by (induction k) (simp_all add: zero_digit)

lemma numberOf_padStart: "numberOf (padStart k s) = numberOf s"
  by (simp add: numberOf_def padStart_def foldl_zeros)

lemma padStart_digits: "\<forall>c \<in> set s. isDigit c \<Longrightarrow> \<forall>c \<in> set (padStart k s). isDigit c"
  by (auto simp: padStart_def zero_digit)

lemma padStart_length: "k \<le> length (padStart k s)"
  by (simp add: padStart_def)

lemma two_digits:
  assumes "n < 100"
  shows "padStart 2 (decimal n) = [digitChar (n div 10), digitChar n]"
proof (cases "n < 10")
  case True
  then have "decimal n = [digitChar n]"
    by (subst decimal.simps) simp
  with True show ?thesis
    by (simp add: padStart_def digitChar_def)
next
  case False
  with assms have "n div 10 < 10" by simp
  then have "decimal (n div 10) = [digitChar (n div 10)]"
    by (subst decimal.simps) simp
  with False have "decimal n = [digitChar (n div 10), digitChar n]"
    by (subst decimal.simps) simp
  then show ?thesis
    by (simp add: padStart_def)
qed

lemma numberOf_two_digits: "n < 100 \<Longrightarrow> numberOf [digitChar (n div 10), digitChar n] = n"
  by (simp add: numberOf_def digitChar_facts)

lemma year_digits:
  "\<forall>c \<in> set (padStart 4 (decimal n)). isDigit c"
  by (rule padStart_digits) (rule decimal_digits)

lemma parse_unsigned:
  assumes ds: "\<forall>c \<in> set ds. isDigit c" and len: "4 \<le> length ds"
    and mm: "mo < 100" and dd: "da < 100"
  shows "takeWhile isDigit (ds @ ''-'' @ padStart 2 (decimal mo) @ ''-'' @ padStart 2 (decimal da)) = ds"
    and "dropWhile isDigit (ds @ ''-'' @ padStart 2 (decimal mo) @ ''-'' @ padStart 2 (decimal da)) =
         [CHR ''-'', digitChar (mo div 10), digitChar mo, CHR ''-'', digitChar (da div 10),
          digitChar da]"
  using ds by (simp_all add: takeWhile_append2 dropWhile_append2 minus_not_digit
      two_digits [OF mm] two_digits [OF dd])

lemma head_is_digit:
  assumes "\<forall>c \<in> set ds. isDigit c" and "4 \<le> length ds"
  shows "take 1 (ds @ rest) \<noteq> ''-''"
proof (cases ds)
  case Nil
  with assms show ?thesis by simp
next
  case (Cons c cs)
  with assms have "isDigit c" by simp
  with Cons show ?thesis
    using minus_not_digit by auto
qed

lemma parse_format_valid:
  assumes "0 \<le> m" and "m \<le> 11" and "1 \<le> d" and "d \<le> getDaysAmountInAMonth y m"
  shows "parseCalendarDate (formatCalendarDate (y, m, d)) = Some (y, m, d)"
proof -
  define ds where "ds = padStart 4 (decimal (nat \<bar>y\<bar>))"
  define mo where "mo = nat (m + 1)"
  define da where "da = nat d"
  define rest where "rest = ''-'' @ padStart 2 (decimal mo) @ ''-'' @ padStart 2 (decimal da)"
  have ds: "\<forall>c \<in> set ds. isDigit c" "4 \<le> length ds" "numberOf ds = nat \<bar>y\<bar>"
    unfolding ds_def by (rule year_digits, rule padStart_length)
      (simp add: numberOf_padStart numberOf_decimal)
  have "d \<le> 31"
    using assms(4) daysAmount_bounds [of y m] by linarith
  with assms have small: "mo < 100" "da < 100" and unnat: "int mo - 1 = m" "int da = d"
    by (simp_all add: mo_def da_def)
  have valid: "validCalendarDate (y, m, d)"
    using assms by (simp add: validCalendarDate_def)
  note scan = parse_unsigned [OF ds(1,2) small, folded rest_def]
  have body: "parseCalendarDate ((if neg then ''-'' else []) @ ds @ rest) =
      Some (y, m, d)"
    if "neg \<longleftrightarrow> y < 0" for neg
  proof (cases neg)
    case True
    with that have "y < 0" by simp
    with valid show ?thesis
      using True 
      by (simp add: parseCalendarDate_def scan ds(2,3) digitChar_facts minus_not_digit
          numberOf_two_digits small unnat)
  next
    case False
    with that have "0 \<le> y" by simp
    with False show ?thesis
      using valid head_is_digit [OF ds(1,2), of rest] 
      by (simp add: parseCalendarDate_def scan ds(2,3) digitChar_facts minus_not_digit
          numberOf_two_digits small unnat)
  qed
  have fmt: "formatCalendarDate (y, m, d) = (if y < 0 then ''-'' else []) @ ds @ rest"
    by (simp add: formatCalendarDate_def ds_def rest_def mo_def da_def)
  show ?thesis
    unfolding fmt using body [of "y < 0"] by (cases "y < 0") simp_all
qed

text \<open>
  C8. For every valid calendar date (any year, month in 0..11, day from 1 to the day
  count of the month), parsing its canonical rendering gives the date back. The same
  holds through \<open>Date\<close>: the input text rendered from the \<open>Date\<close> of a valid calendar
  date parses back to that \<open>Date\<close>.
\<close>

theorem parse_format_roundtrip:
  assumes "0 \<le> m" and "m \<le> 11" and "1 \<le> d" and "d \<le> getDaysAmountInAMonth y m"
  shows "parseCalendarDate (formatCalendarDate (y, m, d)) = Some (y, m, d) \<and>
         getDateFromInputValue (getInputValueFromDate (dateOfCalendarDate (y, m, d))) =
           Some (dateOfCalendarDate (y, m, d))"
proof -
  have valid: "validCalendarDate (y, m, d)"
    using assms by (simp add: validCalendarDate_def)
  have triple: "parseCalendarDate (formatCalendarDate (y, m, d)) = Some (y, m, d)"
    by (rule parse_format_valid [OF assms])
  then show ?thesis
    by (simp add: getDateFromInputValue_def getInputValueFromDate_def
        calendarDateOf_dateOfCalendarDate [OF valid])
qed

theorem parse_format_roundtrip_witness:
  "parseCalendarDate (formatCalendarDate (2024, 1, 29)) = Some (2024, 1, 29) \<and>
   formatCalendarDate (2024, 1, 29) = ''2024-02-29'' \<and>
   parseCalendarDate (formatCalendarDate (- 44, 2, 15)) = Some (- 44, 2, 15) \<and>
   getDateFromInputValue (getInputValueFromDate (dateOfCalendarDate (2024, 1, 29))) =
     Some (dateOfCalendarDate (2024, 1, 29))"
proof -
  have d: "getDaysAmountInAMonth 2024 1 = 29" "getDaysAmountInAMonth (- 44) 2 = 31"
    by code_simp+
  have f: "formatCalendarDate (2024, 1, 29) = ''2024-02-29''"
    by code_simp
  from parse_format_roundtrip [of 1 29 2024] parse_format_roundtrip [of 2 15 "- 44"] f
  show ?thesis
    by (simp add: d)
qed
section \<open>Commit when the popup closes\<close>

lemma updateValue_unparsed:
  "getDateFromInputValue (inputValue st) = None \<Longrightarrow>
   updateValueOnPopupCloseAction props st =
     st\<lparr>showPopup := False, inputValue := getInputValueFromDate (value props)\<rparr>"
  by (simp add: updateValueOnPopupCloseAction_def)

lemma updateValue_out_of_range:
  "getDateFromInputValue (inputValue st) = Some d \<Longrightarrow>
   \<not> isInRange d (min_bound props) (max_bound props) \<Longrightarrow>
   updateValueOnPopupCloseAction props st = st\<lparr>showPopup := False\<rparr>"
  by (simp add: updateValueOnPopupCloseAction_def)

lemma updateValue_in_range:
  "getDateFromInputValue (inputValue st) = Some d \<Longrightarrow>
   isInRange d (min_bound props) (max_bound props) \<Longrightarrow>
   updateValueOnPopupCloseAction props st =
     st\<lparr>showPopup := False, onChangeCalls := onChangeCalls st @ [d]\<rparr>"
  by (simp add: updateValueOnPopupCloseAction_def)

text \<open>
  C1. Let \<open>st'\<close> be the state after a commit-on-popup-close trigger, the Enter key or a
  click outside the root element, in a state with input text \<open>t\<close>. If \<open>t\<close> fails to
  parse, the popup is closed, the input text is the canonical format of the selected
  date and \<open>onChange\<close> has not been called. If \<open>t\<close> parses to a date out of range, the
  popup is closed, the input text is still \<open>t\<close> and \<open>onChange\<close> has not been called.
  If \<open>t\<close> parses to a date \<open>d\<close> in range, \<open>onChange\<close> has been called with \<open>d\<close> and
  the popup is closed.
\<close>

theorem commit_on_popup_close:
  assumes "st' = onKeyDown props ''Enter'' st \<or> st' = onDocumentClick props OutsideElement st"
  shows "(getDateFromInputValue (inputValue st) = None \<longrightarrow>
            \<not> showPopup st' \<and> inputValue st' = getInputValueFromDate (value props) \<and>
            onChangeCalls st' = onChangeCalls st) \<and>
         (\<forall>d. getDateFromInputValue (inputValue st) = Some d \<and>
               \<not> isInRange d (min_bound props) (max_bound props) \<longrightarrow>
            \<not> showPopup st' \<and> inputValue st' = inputValue st \<and>
            onChangeCalls st' = onChangeCalls st) \<and>
         (\<forall>d. getDateFromInputValue (inputValue st) = Some d \<and>
               isInRange d (min_bound props) (max_bound props) \<longrightarrow>
            \<not> showPopup st' \<and> onChangeCalls st' = onChangeCalls st @ [d])"
proof -
  from assms have eq: "st' = updateValueOnPopupCloseAction props st"
    by (auto simp: onKeyDown_def onDocumentClick_def)
  show ?thesis
    unfolding eq
    by (auto simp: updateValue_unparsed updateValue_out_of_range updateValue_in_range)
qed

text \<open>
  With the bounds of May 2023 and the selected date 2023-05-15: Enter on "2023-06-01"
  closes the popup, keeps the text and calls nothing; Enter on "abcd" closes the popup
  and resets the text to "2023-05-15"; an outside click on "2023-05-20" commits that date.
\<close>

theorem commit_on_popup_close_witness:
  "(\<not> showPopup (onKeyDown may2023_props ''Enter'' (typed ''2023-06-01'' True)) \<and>
    inputValue (onKeyDown may2023_props ''Enter'' (typed ''2023-06-01'' True)) = ''2023-06-01'' \<and>
    onChangeCalls (onKeyDown may2023_props ''Enter'' (typed ''2023-06-01'' True)) = []) \<and>
   (\<not> showPopup (onKeyDown may2023_props ''Enter'' (typed ''abcd'' True)) \<and>
    inputValue (onKeyDown may2023_props ''Enter'' (typed ''abcd'' True)) = ''2023-05-15'' \<and>
    onChangeCalls (onKeyDown may2023_props ''Enter'' (typed ''abcd'' True)) = []) \<and>
   (\<not> showPopup (onDocumentClick may2023_props OutsideElement (typed ''2023-05-20'' True)) \<and>
    onChangeCalls (onDocumentClick may2023_props OutsideElement (typed ''2023-05-20'' True)) =
      [Date_new 2023 4 20])"
proof -
  note a = commit_on_popup_close
    [of "onKeyDown may2023_props ''Enter'' (typed ''2023-06-01'' True)" may2023_props
        "typed ''2023-06-01'' True"]
  note b = commit_on_popup_close
    [of "onKeyDown may2023_props ''Enter'' (typed ''abcd'' True)" may2023_props
        "typed ''abcd'' True"]
  note c = commit_on_popup_close
    [of "onDocumentClick may2023_props OutsideElement (typed ''2023-05-20'' True)"
        may2023_props "typed ''2023-05-20'' True"]
  from a b c show ?thesis
    by (simp add: typed_fields parse_june_first parse_may_20 parse_garbage
        june_first_outside_may may_20_inside_may format_may_15)
qed

text \<open>
  C10. A document click whose target lies outside the root element runs the commit
  action whether or not the popup is open: the handler does not read \<open>showPopup\<close>, and
  its result is the same from the state with the popup closed. With the popup closed,
  such a click resets an unparseable input text to the canonical format of the selected
  date, and calls \<open>onChange\<close> with the date of a parseable, in-range input text.
\<close>

theorem outside_click_when_closed:
  "onDocumentClick props OutsideElement st = updateValueOnPopupCloseAction props st \<and>
   onDocumentClick props OutsideElement (st\<lparr>showPopup := False\<rparr>) =
     onDocumentClick props OutsideElement st \<and>
   (\<not> showPopup st \<and> getDateFromInputValue (inputValue st) = None \<longrightarrow>
      inputValue (onDocumentClick props OutsideElement st) =
        getInputValueFromDate (value props)) \<and>
   (\<forall>d. \<not> showPopup st \<and> getDateFromInputValue (inputValue st) = Some d \<and>
         isInRange d (min_bound props) (max_bound props) \<longrightarrow>
      onChangeCalls (onDocumentClick props OutsideElement st) = onChangeCalls st @ [d])"
proof -
  have run: "onDocumentClick props OutsideElement s = updateValueOnPopupCloseAction props s"
    for s
    by (simp add: onDocumentClick_def)
  have closed: "updateValueOnPopupCloseAction props (st\<lparr>showPopup := False\<rparr>) =
      updateValueOnPopupCloseAction props st"
    by (simp add: updateValueOnPopupCloseAction_def Let_def split: option.split)
  show ?thesis
    unfolding run closed
    by (auto simp: updateValue_unparsed updateValue_in_range)
qed

text \<open>
  With the popup closed: an outside click on "2023-05-20" commits that date, and one on
  "abcd" resets the text to "2023-05-15".
\<close>

theorem outside_click_when_closed_witness:
  "\<not> showPopup (typed ''2023-05-20'' False) \<and>
   onChangeCalls (onDocumentClick may2023_props OutsideElement (typed ''2023-05-20'' False)) =
     [Date_new 2023 4 20] \<and>
   inputValue (onDocumentClick may2023_props OutsideElement (typed ''abcd'' False)) =
     ''2023-05-15''"
proof -
  note a = outside_click_when_closed [of may2023_props "typed ''2023-05-20'' False"]
  note b = outside_click_when_closed [of may2023_props "typed ''abcd'' False"]
  from a [THEN conjunct2, THEN conjunct2] b [THEN conjunct2, THEN conjunct2] show ?thesis
    by (simp add: typed_fields parse_may_20 parse_garbage may_20_inside_may format_may_15)
qed

section \<open>Commit on a cell click\<close>




section \<open>Panel navigation and auto-sync\<close>

text \<open>
  C5. With the panel month in 0..11: next-month maps (y, 11) to (y + 1, 0) and (y, m),
  m < 11, to (y, m + 1); prev-month maps (y, 0) to (y - 1, 11) and (y, m), m > 0, to
  (y, m - 1). None of the four navigation actions changes the input text, calls
  \<open>onChange\<close> (the only way the selected date changes) or touches the popup flag.
  Four next-month steps from October (9) reach February (1) of the next year.
\<close>

theorem month_navigation:
  assumes "0 \<le> panelMonth st" and "panelMonth st \<le> 11"
  shows "(panelMonth st = 11 \<longrightarrow>
            panelYear (nextMonth st) = panelYear st + 1 \<and> panelMonth (nextMonth st) = 0) \<and>
         (panelMonth st < 11 \<longrightarrow>
            panelYear (nextMonth st) = panelYear st \<and>
            panelMonth (nextMonth st) = panelMonth st + 1) \<and>
         (panelMonth st = 0 \<longrightarrow>
            panelYear (prevMonth st) = panelYear st - 1 \<and> panelMonth (prevMonth st) = 11) \<and>
         (panelMonth st > 0 \<longrightarrow>
            panelYear (prevMonth st) = panelYear st \<and>
            panelMonth (prevMonth st) = panelMonth st - 1) \<and>
         (\<forall>f \<in> set [nextMonth, prevMonth, nextYear, prevYear].
            inputValue (f st) = inputValue st \<and> onChangeCalls (f st) = onChangeCalls st \<and>
            showPopup (f st) = showPopup st) \<and>
         (panelMonth st = 9 \<longrightarrow>
            panelYear (nextMonth (nextMonth (nextMonth (nextMonth st)))) = panelYear st + 1 \<and>
            panelMonth (nextMonth (nextMonth (nextMonth (nextMonth st)))) = 1)"
  using assms
  by (simp add: nextMonth_def prevMonth_def nextYear_def prevYear_def)

theorem month_navigation_witness:
  "panelYear (nextMonth (nextMonth (nextMonth (nextMonth october_panel)))) = 2024 \<and>
   panelMonth (nextMonth (nextMonth (nextMonth (nextMonth october_panel)))) = 1 \<and>
   panelMonth (nextMonth october_panel) = 10 \<and>
   panelMonth (prevMonth october_panel) = 8 \<and>
   inputValue (nextMonth october_panel) = ''2023-10-05'' \<and>
   onChangeCalls (prevYear october_panel) = []"
proof -
  from month_navigation [of october_panel] show ?thesis
    by (simp add: october_panel_fields)
qed

text \<open>
  C6. Whenever the input text parses to a date \<open>d\<close>, whatever the bounds, the layout
  effect of the popup sets \<open>panelYear\<close> to the year of \<open>d\<close> and \<open>panelMonth\<close> to its
  month; whenever the input text does not parse, the effect leaves the state as it is.
\<close>

theorem panel_auto_sync:
  "(\<forall>d. getDateFromInputValue (inputValue st) = Some d \<longrightarrow>
      panelYear (panelSyncEffect (inputValueDate props st) st) = getFullYear d \<and>
      panelMonth (panelSyncEffect (inputValueDate props st) st) = getMonth d) \<and>
   (getDateFromInputValue (inputValue st) = None \<longrightarrow>
      panelSyncEffect (inputValueDate props st) st = st)"
  by (simp add: panelSyncEffect_def inputValueDate_def inputValueMemo_def)

text \<open>"2023-06-01" is out of the bounds of May 2023 and still moves the panel to June.\<close>

theorem panel_auto_sync_witness:
  "\<not> isInRange (Date_new 2023 5 1) (min_bound may2023_props) (max_bound may2023_props) \<and>
   panelYear (panelSyncEffect (inputValueDate may2023_props (typed ''2023-06-01'' True))
      (typed ''2023-06-01'' True)) = 2023 \<and>
   panelMonth (panelSyncEffect (inputValueDate may2023_props (typed ''2023-06-01'' True))
      (typed ''2023-06-01'' True)) = 5 \<and>
   panelSyncEffect (inputValueDate may2023_props (typed ''abcd'' True)) (typed ''abcd'' True) =
     typed ''abcd'' True"
proof -
  from panel_auto_sync [of "typed ''2023-06-01'' True" may2023_props]
       panel_auto_sync [of "typed ''abcd'' True" may2023_props]
  show ?thesis
    by (simp add: typed_fields june_first_fields parse_june_first parse_garbage
        june_first_outside_may)
qed

section \<open>The validity flag\<close>

text \<open>
  C7. The validity flag of the memo is true exactly when the input text parses. The
  bounds do not affect it: the flag is the same under any other bounds, and a parsed
  date out of range is still reported valid.
\<close>

theorem validity_flag_ignores_range:
  "isValidInputValue props st = (getDateFromInputValue (inputValue st) \<noteq> None) \<and>
   isValidInputValue (props\<lparr>min_bound := mn, max_bound := mx\<rparr>) st =
     isValidInputValue props st \<and>
   (\<forall>d. getDateFromInputValue (inputValue st) = Some d \<and>
         \<not> isInRange d (min_bound props) (max_bound props) \<longrightarrow> isValidInputValue props st)"
  by (auto simp: isValidInputValue_def inputValueMemo_def split: option.splits)

theorem validity_flag_ignores_range_witness:
  "\<not> isInRange (Date_new 2023 5 1) (min_bound may2023_props) (max_bound may2023_props) \<and>
   isValidInputValue may2023_props (typed ''2023-06-01'' False) \<and>
   \<not> isValidInputValue may2023_props (typed ''abcd'' False)"
proof -
  from validity_flag_ignores_range [of may2023_props "typed ''2023-06-01'' False" None None]
       validity_flag_ignores_range [of may2023_props "typed ''abcd'' False" None None]
  show ?thesis
    by (simp add: typed_fields parse_june_first parse_garbage june_first_outside_may)
qed

section \<open>The range flag of a cell\<close>

text \<open>
  C2. The claim: the out-of-range flag of a cell is true exactly when the date (year,
  month, day) of the cell is not in range. The grid computes the flag from
  \<open>new Date(cell.year, cell.month - 1, cell.date)\<close>, one month before the cell's date
  (\<open>onDateSelect\<close> and the selected-date test read \<open>cell.month\<close> as the zero-based
  month). The cell of 15 June 2023 is in the grid of June 2023. With the bounds 1 to 30
  June 2023 it is flagged out of range, although its date is in range; with the bounds
  of May 2023 it is not flagged, although its date is out of range. The date tested is
  15 May 2023.
\<close>

theorem cell_range_flag_one_month_early:
  "june15_cell \<in> set (dateCells 2023 5) \<and>
   cellNotInRange june2023_props june15_cell \<and>
   isInRange (Date_new (year june15_cell) (month june15_cell) (date june15_cell))
     (min_bound june2023_props) (max_bound june2023_props) \<and>
   \<not> cellNotInRange may2023_props june15_cell \<and>
   \<not> isInRange (Date_new (year june15_cell) (month june15_cell) (date june15_cell))
     (min_bound may2023_props) (max_bound may2023_props) \<and>
   calendarDateOf (Date_new (year june15_cell) (month june15_cell - 1) (date june15_cell)) =
     (2023, 4, 15)"
  by code_simp

end
